theory Spec2Isabelle
  imports Complex_Main
begin

section \<open>Strings of the component\<close>

text \<open>
  \<^verbatim>\<open>src/App.jsx\<close> is one React function component. Its strings are modelled as
  \<^typ>\<open>string\<close>, read as the UTF-8 bytes of the JavaScript string: a character of the ASCII
  range is one byte below 128, every other character is a sequence of bytes from 128 on.
  \<^item> The regular-expression class \<open>\w\<close> behind \<open>\b\<close> is \<open>[A-Za-z0-9_]\<close>. Every byte of a
    non-ASCII character is outside it, as the character itself is in a pattern without the
    \<open>u\<close> flag.
  \<^item> Under the \<open>i\<close> flag two characters match when their canonical (upper-case) forms
    agree; without the \<open>u\<close> flag a non-ASCII character never canonicalises to an ASCII one,
    so it matches no character of a key.
\<close>

definition isASCII :: "char \<Rightarrow> bool" where
  "isASCII c = ((of_char c :: nat) < 128)"

definition isWordChar :: "char \<Rightarrow> bool" where
  "isWordChar c =
     (let n = (of_char c :: nat)
      in (97 \<le> n \<and> n \<le> 122) \<or> (65 \<le> n \<and> n \<le> 90) \<or> (48 \<le> n \<and> n \<le> 57) \<or> n = 95)"

definition canonicalize :: "char \<Rightarrow> char" where
  "canonicalize c =
     (let n = (of_char c :: nat)
      in if 97 \<le> n \<and> n \<le> 122 then char_of (n - 32) else c)"

definition startsWith :: "string \<Rightarrow> string \<Rightarrow> bool" where
  "startsWith s p = (take (length p) s = p)"

subsection \<open>Lower-casing\<close>

text \<open>
  \<^verbatim>\<open>String.prototype.toLowerCase\<close> (line 127) follows the case mapping tables of Unicode,
  which are no part of the repository. The function is therefore a parameter, called
  \<open>toLowerCase\<close>, of every definition that uses it, and a theorem says of it what it needs:
  \<^item> \<open>lowersASCII\<close>: on a text of ASCII characters it maps \<open>A\<close>..\<open>Z\<close> to \<open>a\<close>..\<open>z\<close> and
    keeps every other character;
  \<^item> \<open>keepsLowerCase\<close>: a lower-cased text is kept by lower-casing, and a text that
    lower-casing keeps is still kept when a run of ASCII characters in it is replaced by
    ASCII characters other than \<open>A\<close>..\<open>Z\<close>. (The host function maps a text character by
    character; only the image of a capital sigma depends on its neighbours, and a text
    that lower-casing keeps has none. On byte sequences that are the UTF-8 of no text the
    parameter is free.)

  \<open>asciiLowerCase\<close> is the function that lower-cases \<open>A\<close>..\<open>Z\<close> and keeps every other
  byte. It is the host function on every text whose non-ASCII characters have no lower
  case of their own, the texts of ASCII characters among them, and it stands for the host
  function where a theorem evaluates the component on such a text.
\<close>

definition asciiToLower :: "char \<Rightarrow> char" where
  "asciiToLower c =
     (let n = (of_char c :: nat)
      in if 65 \<le> n \<and> n \<le> 90 then char_of (n + 32) else c)"


definition keepsLowerCase :: "(string \<Rightarrow> string) \<Rightarrow> bool" where
  "keepsLowerCase toLowerCase =
     ((\<forall>s. toLowerCase (toLowerCase s) = toLowerCase s) \<and>
      (\<forall>u w w' v.
         toLowerCase (u @ w @ v) = u @ w @ v \<and> w \<noteq> [] \<and> list_all isASCII w \<and>
         list_all isASCII w' \<and> map asciiToLower w' = w'
         \<longrightarrow> toLowerCase (u @ w' @ v) = u @ w' @ v))"

definition asciiLowerCase :: "string \<Rightarrow> string" where
  "asciiLowerCase s = map asciiToLower s"

subsection \<open>White space\<close>

text \<open>
  \<^verbatim>\<open>String.prototype.trim\<close> (line 137) strips the white space and line terminator
  characters of the language from both ends: U+0009 to U+000D, U+0020, U+00A0, U+1680,
  U+2000 to U+200A, U+2028, U+2029, U+202F, U+205F, U+3000 and U+FEFF, listed here by
  their UTF-8 bytes. \<open>strip table s\<close> removes entries of \<open>table\<close> from the front of \<open>s\<close> as
  long as there is one; \<open>trim\<close> strips the front, and the back on the reversed text.
\<close>

definition whiteSpace :: "string list" where
  "whiteSpace =
     [[CHR 0x09], [CHR 0x0A], [CHR 0x0B], [CHR 0x0C], [CHR 0x0D], [CHR 0x20],
      [CHR 0xC2, CHR 0xA0],
      [CHR 0xE1, CHR 0x9A, CHR 0x80],
      [CHR 0xE2, CHR 0x80, CHR 0x80], [CHR 0xE2, CHR 0x80, CHR 0x81],
      [CHR 0xE2, CHR 0x80, CHR 0x82], [CHR 0xE2, CHR 0x80, CHR 0x83],
      [CHR 0xE2, CHR 0x80, CHR 0x84], [CHR 0xE2, CHR 0x80, CHR 0x85],
      [CHR 0xE2, CHR 0x80, CHR 0x86], [CHR 0xE2, CHR 0x80, CHR 0x87],
      [CHR 0xE2, CHR 0x80, CHR 0x88], [CHR 0xE2, CHR 0x80, CHR 0x89],
      [CHR 0xE2, CHR 0x80, CHR 0x8A],
      [CHR 0xE2, CHR 0x80, CHR 0xA8], [CHR 0xE2, CHR 0x80, CHR 0xA9],
      [CHR 0xE2, CHR 0x80, CHR 0xAF],
      [CHR 0xE2, CHR 0x81, CHR 0x9F],
      [CHR 0xE3, CHR 0x80, CHR 0x80],
      [CHR 0xEF, CHR 0xBB, CHR 0xBF]]"

definition prefixLength :: "string list \<Rightarrow> string \<Rightarrow> nat" where
  "prefixLength table s =
     (case find (\<lambda>w. w \<noteq> [] \<and> startsWith s w) table of
        None \<Rightarrow> 0
      | Some w \<Rightarrow> length w)"

function strip :: "string list \<Rightarrow> string \<Rightarrow> string" where
  "strip table s =
     (if prefixLength table s = 0 then s
      else strip table (drop (prefixLength table s) s))"
  by pat_completeness auto
termination
proof (relation "measure (\<lambda>(table, s). length s)")
  fix table :: "string list" and s :: string
  assume n: "prefixLength table s \<noteq> 0"
  then obtain w where "find (\<lambda>w. w \<noteq> [] \<and> startsWith s w) table = Some w"
    by (auto simp: prefixLength_def split: option.splits)
  then have "w \<noteq> []" and "startsWith s w"
    by (auto simp: find_Some_iff)
  then have "s \<noteq> []" by (auto simp: startsWith_def)
  with n show "((table, drop (prefixLength table s) s), (table, s))
                 \<in> measure (\<lambda>(table, s). length s)"
    by simp
qed simp

definition trim :: "string \<Rightarrow> string" where
  "trim s = rev (strip (map rev whiteSpace) (rev (strip whiteSpace s)))"

section \<open>Medical terminology enhancement\<close>

text \<open>
  \<^verbatim>\<open>const MEDICAL_TERMS = { 'bp': 'blood pressure', ... }\<close> (lines 29-39). The object is
  kept as an association list: \<^verbatim>\<open>Object.keys\<close> enumerates string keys in insertion order,
  and \<^verbatim>\<open>enhanceMedicalTerms\<close> visits them in that order.
\<close>

definition MEDICAL_TERMS :: "(string \<times> string) list" where
  "MEDICAL_TERMS =
     [(''bp'', ''blood pressure''),
      (''hr'', ''heart rate''),
      (''temp'', ''temperature''),
      (''meds'', ''medications''),
      (''rx'', ''prescription''),
      (''dx'', ''diagnosis''),
      (''tx'', ''treatment''),
      (''hx'', ''history''),
      (''sx'', ''symptoms'')]"

text \<open>
  \<^verbatim>\<open>new RegExp(`\\b${abbr}\\b`, 'gi')\<close> (line 129). For a key made of letters the pattern
  is: a word boundary, the key's characters compared case-insensitively, a word boundary.
  \<open>isWordAt s\<close> is the regular expression semantics' \<open>IsWordChar(e)\<close> for the position in
  front of \<open>s\<close>: false at the end of the input. \<open>matchesAt abbr wordBefore s\<close> says that the
  pattern matches at the position in front of \<open>s\<close>, where \<open>wordBefore\<close> is \<open>IsWordChar(e - 1)\<close>
  for that position (false at the start of the input).
\<close>

definition isWordAt :: "string \<Rightarrow> bool" where
  "isWordAt s = (case s of [] \<Rightarrow> False | c # _ \<Rightarrow> isWordChar c)"

definition matchesAt :: "string \<Rightarrow> bool \<Rightarrow> string \<Rightarrow> bool" where
  "matchesAt abbr wordBefore s =
     (wordBefore \<noteq> isWordAt s \<and>
      length abbr \<le> length s \<and>
      map canonicalize (take (length abbr) s) = map canonicalize abbr \<and>
      (if abbr = [] then wordBefore else isWordChar (last (take (length abbr) s)))
        \<noteq> isWordAt (drop (length abbr) s))"

text \<open>
  \<^verbatim>\<open>enhanced.replace(regex, MEDICAL_TERMS[abbr])\<close> (line 130) with the \<open>g\<close> flag: the
  input is scanned from the left; at a match the replacement is emitted and the scan
  resumes behind the match (one character further after an empty match, which copies that
  character); elsewhere the character is copied. The replacement is emitted literally: no
  expansion of the table contains \<open>$\<close>.
\<close>

function replaceAll :: "string \<Rightarrow> string \<Rightarrow> bool \<Rightarrow> string \<Rightarrow> string" where
  "replaceAll abbr full wordBefore [] = (if matchesAt abbr wordBefore [] then full else [])"
| "replaceAll abbr full wordBefore (c # cs) =
     (if matchesAt abbr wordBefore (c # cs) then
        (if abbr = [] then full @ c # replaceAll abbr full (isWordChar c) cs
         else full @ replaceAll abbr full (isWordChar (last (take (length abbr) (c # cs))))
                        (drop (length abbr) (c # cs)))
      else c # replaceAll abbr full (isWordChar c) cs)"
  by pat_completeness auto
termination
  by (relation "measure (\<lambda>(abbr, full, wordBefore, s). length s)") auto

text \<open>
  \<^verbatim>\<open>enhanceMedicalTerms\<close> (lines 126-133): lower-case the text with the host function,
  then one global replacement per key, each on the result of the one before it.
\<close>

definition enhanceMedicalTerms :: "(string \<Rightarrow> string) \<Rightarrow> string \<Rightarrow> string" where
  "enhanceMedicalTerms toLowerCase text =
     foldl (\<lambda>enhanced (abbr, full). replaceAll abbr full False enhanced)
       (toLowerCase text) MEDICAL_TERMS"

text \<open>
  The specification's reading of the same function. A \<^emph>\<open>word\<close> is a maximal run of word
  characters; \<open>tokens\<close> cuts a text into its words and, one by one, the characters between
  them. \<open>replaceWholeWords\<close> replaces each word that is the key up to letter case by the
  expansion and keeps every other token, so a key inside a longer word is never touched.
\<close>

function tokens :: "string \<Rightarrow> string list" where
  "tokens [] = []"
| "tokens (c # cs) =
     (if isWordChar c then (c # takeWhile isWordChar cs) # tokens (dropWhile isWordChar cs)
      else [c] # tokens cs)"
  by pat_completeness auto
termination
  by (relation "measure length") (auto simp: length_dropWhile_le less_Suc_eq_le)

definition sameWord :: "string \<Rightarrow> string \<Rightarrow> bool" where
  "sameWord abbr w = (map canonicalize w = map canonicalize abbr)"

definition replaceWholeWords :: "string \<Rightarrow> string \<Rightarrow> string \<Rightarrow> string" where
  "replaceWholeWords abbr full s =
     concat (map (\<lambda>w. if sameWord abbr w then full else w) (tokens s))"


section \<open>The component\<close>

text \<open>
  \<^verbatim>\<open>const LANGUAGES = [...]\<close> (lines 5-26): code, display name and speech locale tag.
\<close>

record language =
  code :: string
  name :: string
  voice :: string

definition LANGUAGES :: "language list" where
  "LANGUAGES =
     [\<lparr>code = ''en'', name = ''English'', voice = ''en-US''\<rparr>,
      \<lparr>code = ''es'', name = ''Spanish'', voice = ''es-ES''\<rparr>,
      \<lparr>code = ''zh'', name = ''Chinese (Mandarin)'', voice = ''zh-CN''\<rparr>,
      \<lparr>code = ''hi'', name = ''Hindi'', voice = ''hi-IN''\<rparr>,
      \<lparr>code = ''ar'', name = ''Arabic'', voice = ''ar-SA''\<rparr>,
      \<lparr>code = ''fr'', name = ''French'', voice = ''fr-FR''\<rparr>,
      \<lparr>code = ''de'', name = ''German'', voice = ''de-DE''\<rparr>,
      \<lparr>code = ''pt'', name = ''Portuguese'', voice = ''pt-BR''\<rparr>,
      \<lparr>code = ''ru'', name = ''Russian'', voice = ''ru-RU''\<rparr>,
      \<lparr>code = ''ja'', name = ''Japanese'', voice = ''ja-JP''\<rparr>,
      \<lparr>code = ''ko'', name = ''Korean'', voice = ''ko-KR''\<rparr>,
      \<lparr>code = ''it'', name = ''Italian'', voice = ''it-IT''\<rparr>,
      \<lparr>code = ''tr'', name = ''Turkish'', voice = ''tr-TR''\<rparr>,
      \<lparr>code = ''pl'', name = ''Polish'', voice = ''pl-PL''\<rparr>,
      \<lparr>code = ''nl'', name = ''Dutch'', voice = ''nl-NL''\<rparr>,
      \<lparr>code = ''vi'', name = ''Vietnamese'', voice = ''vi-VN''\<rparr>,
      \<lparr>code = ''th'', name = ''Thai'', voice = ''th-TH''\<rparr>,
      \<lparr>code = ''id'', name = ''Indonesian'', voice = ''id-ID''\<rparr>,
      \<lparr>code = ''uk'', name = ''Ukrainian'', voice = ''uk-UA''\<rparr>,
      \<lparr>code = ''ro'', name = ''Romanian'', voice = ''ro-RO''\<rparr>]"

subsection \<open>State\<close>

text \<open>
  A session record as \<^verbatim>\<open>saveSession\<close> builds it (lines 165-172). \<open>s_id\<close> is
  \<^verbatim>\<open>Date.now()\<close> and \<open>s_timestamp\<close> is \<^verbatim>\<open>new Date().toISOString()\<close>: two readings of
  the clock, both inputs of the model.
\<close>

record session =
  s_id :: nat
  s_timestamp :: string
  s_inputLang :: string
  s_outputLang :: string
  s_original :: string
  s_translated :: string

text \<open>
  The ten \<^verbatim>\<open>useState\<close> cells of \<^verbatim>\<open>App\<close> (lines 42-51). One value of this record is
  what one render of the component sees.
\<close>

record view =
  inputLang :: string
  outputLang :: string
  isListening :: bool
  originalText :: string
  translatedText :: string
  interimText :: string
  isTranslating :: bool
  showDisclaimer :: bool
  error :: string
  sessions :: "session list"

definition initialState :: view where
  "initialState =
     \<lparr>inputLang = ''en'', outputLang = ''es'', isListening = False, originalText = [],
      translatedText = [], interimText = [], isTranslating = False, showDisclaimer = True,
      error = [], sessions = []\<rparr>"

text \<open>
  A function component is called anew for every render, and the constants it declares
  (\<^verbatim>\<open>originalText\<close>, \<^verbatim>\<open>sessions\<close>, \<^verbatim>\<open>translateText\<close>, \<^verbatim>\<open>saveSession\<close>, ...) belong to that
  call. The setters \<^verbatim>\<open>setOriginalText\<close>, ... write the state React holds; a closure
  reads the constants of the render that created it.

  \<^item> The button and \<^verbatim>\<open>select\<close> handlers are attached by the JSX of every render
    (lines 261-409), so they are closures of the latest render.
  \<^item> The handlers of the speech recognition object (\<^verbatim>\<open>onresult\<close>, \<^verbatim>\<open>onerror\<close>,
    \<^verbatim>\<open>onend\<close>) are installed by the effect of lines 57-110, whose dependency list is
    \<^verbatim>\<open>[inputLang]\<close>: the effect runs after the first render and again only after a render
    in which \<^verbatim>\<open>inputLang\<close> has changed. These handlers, and the \<^verbatim>\<open>translateText\<close> and
    \<^verbatim>\<open>saveSession\<close> they call, are closures of that render.

  \<open>current\<close> is the state React holds; \<open>captured\<close> is the state as the render saw it
  whose closures the recognition handlers are. \<open>recognitionRef\<close> says whether
  \<^verbatim>\<open>recognitionRef.current\<close> holds a recognition object, and \<open>localStorage\<close> is the browser's
  store: a string for each key that is present.
\<close>

record app =
  current :: view
  captured :: view
  recognitionRef :: bool
  localStorage :: "string \<rightharpoonup> string"

text \<open>
  The host functions \<^verbatim>\<open>JSON.parse\<close> and \<^verbatim>\<open>JSON.stringify\<close> are parameters of the model,
  for the one type they are used at: \<open>JSON_parse s = None\<close> when \<^verbatim>\<open>JSON.parse\<close> throws its
  \<^verbatim>\<open>SyntaxError\<close> on \<open>s\<close>. A stored string that is valid JSON for anything but a list of
  session records is outside the model.
\<close>

type_synonym json_parse = "string \<Rightarrow> session list option"
type_synonym json_stringify = "session list \<Rightarrow> string"

datatype failure = SyntaxError

text \<open>JavaScript truthiness of what \<^verbatim>\<open>localStorage.getItem\<close> returns: \<^verbatim>\<open>null\<close> and the
  empty string are falsy, every other string is truthy.\<close>

definition truthy :: "string option \<Rightarrow> bool" where
  "truthy v = (case v of None \<Rightarrow> False | Some s \<Rightarrow> s \<noteq> [])"

subsection \<open>Effects\<close>

text \<open>
  The recognition effect (lines 57-110), as far as the component's state goes: with the
  recognition API present it builds the recognition object and installs the handlers of
  the render it runs in; without it, it sets the error message.
\<close>

definition recognitionEffect :: "bool \<Rightarrow> app \<Rightarrow> app" where
  "recognitionEffect supported a =
     (if supported then a\<lparr>recognitionRef := True, captured := current a\<rparr>
      else a\<lparr>current := (current a)
             \<lparr>error := ''Speech recognition not supported in this browser. Please use Chrome or Edge.''\<rparr>\<rparr>)"

text \<open>The load effect (lines 113-123), run once after the first render.\<close>

definition loadEffect :: "json_parse \<Rightarrow> app \<Rightarrow> failure + app" where
  "loadEffect JSON_parse a =
     (let saved = localStorage a ''healthcareTranslationSessions'' in
      case (if truthy saved then
              (case JSON_parse (the saved) of
                 None \<Rightarrow> Inl SyntaxError
               | Some parsed \<Rightarrow> Inr (a\<lparr>current := (current a)\<lparr>sessions := parsed\<rparr>\<rparr>))
            else Inr a) of
        Inl e \<Rightarrow> Inl e
      | Inr a' \<Rightarrow>
          (let disclaimerShown = localStorage a' ''disclaimerShown'' in
           if truthy disclaimerShown
           then Inr (a'\<lparr>current := (current a')\<lparr>showDisclaimer := False\<rparr>\<rparr>)
           else Inr a'))"

text \<open>
  Mounting the component in a browser with the given store: the first render sees the
  initial state, then both effects run in the order of their declaration.
\<close>

definition mount :: "json_parse \<Rightarrow> bool \<Rightarrow> (string \<rightharpoonup> string) \<Rightarrow> failure + app" where
  "mount JSON_parse supported storage =
     loadEffect JSON_parse
       (recognitionEffect supported
          \<lparr>current = initialState, captured = initialState, recognitionRef = False,
           localStorage = storage\<rparr>)"


subsection \<open>Translation and history\<close>

text \<open>
  \<^verbatim>\<open>translateText\<close> (lines 136-161) is an \<^verbatim>\<open>async\<close> function. Up to its first \<^verbatim>\<open>await\<close>
  it runs inside the caller's event; what follows the \<^verbatim>\<open>await\<close> runs later, as an event of
  its own, when the request has settled. A call in flight is a \<open>pending\<close> value: the text
  it was given and the render whose \<^verbatim>\<open>translateText\<close> was called, which is the render its
  \<^verbatim>\<open>inputLang\<close>, \<^verbatim>\<open>outputLang\<close> and \<^verbatim>\<open>saveSession\<close> come from.
\<close>

record pending =
  p_text :: string
  p_render :: view

text \<open>
  How the request settles: \<^verbatim>\<open>fetch\<close> or \<^verbatim>\<open>response.json()\<close> rejects; or the body is
  JSON of a shape on which \<^verbatim>\<open>data[0].map(item => item[0]).join('')\<close> throws; or that
  expression yields the translated string.
\<close>

datatype response = Rejected | Undecodable | Translated string

text \<open>
  \<^verbatim>\<open>saveSession\<close> (lines 164-177). \<^verbatim>\<open>sessions\<close>, \<^verbatim>\<open>inputLang\<close> and \<^verbatim>\<open>outputLang\<close> are
  the constants of the render the function belongs to. The write to the store is taken
  to succeed.
\<close>

definition saveSession ::
  "json_stringify \<Rightarrow> view \<Rightarrow> nat \<Rightarrow> string \<Rightarrow> string \<Rightarrow> string \<Rightarrow> app \<Rightarrow> app" where
  "saveSession JSON_stringify render now stamp original translated a =
     (let session = \<lparr>s_id = now, s_timestamp = stamp, s_inputLang = inputLang render,
                     s_outputLang = outputLang render, s_original = original,
                     s_translated = translated\<rparr>;
          newSessions = take 10 (session # sessions render)
      in a\<lparr>current := (current a)\<lparr>sessions := newSessions\<rparr>,
           localStorage := (localStorage a)
             (''healthcareTranslationSessions'' \<mapsto> JSON_stringify newSessions)\<rparr>)"

text \<open>
  The part of \<^verbatim>\<open>translateText\<close> in front of the \<^verbatim>\<open>await\<close> (lines 137-147), called on the
  \<^verbatim>\<open>translateText\<close> of render \<open>render\<close>: nothing on blank text, otherwise the two setters
  and the request.
\<close>

definition translateText :: "view \<Rightarrow> string \<Rightarrow> app \<Rightarrow> app \<times> pending option" where
  "translateText render text a =
     (if trim text = [] then (a, None)
      else (a\<lparr>current := (current a)\<lparr>isTranslating := True, error := []\<rparr>\<rparr>,
            Some \<lparr>p_text = text, p_render = render\<rparr>))"

text \<open>The part behind the \<^verbatim>\<open>await\<close> (lines 149-160): \<^verbatim>\<open>try\<close>, \<^verbatim>\<open>catch\<close>, \<^verbatim>\<open>finally\<close>.\<close>

definition translateTextResume ::
  "json_stringify \<Rightarrow> pending \<Rightarrow> response \<Rightarrow> nat \<Rightarrow> string \<Rightarrow> app \<Rightarrow> app" where
  "translateTextResume JSON_stringify p r now stamp a =
     (let a' = (case r of
                  Translated translated \<Rightarrow>
                    saveSession JSON_stringify (p_render p) now stamp (p_text p) translated
                      (a\<lparr>current := (current a)\<lparr>translatedText := translated\<rparr>\<rparr>)
                | _ \<Rightarrow> a\<lparr>current := (current a)
                          \<lparr>error := ''Translation failed. Please try again.''\<rparr>\<rparr>)
      in a'\<lparr>current := (current a')\<lparr>isTranslating := False\<rparr>\<rparr>)"

subsection \<open>Speech recognition handlers\<close>

text \<open>
  One entry of \<^verbatim>\<open>event.results\<close>: the transcript of its first alternative and its
  \<^verbatim>\<open>isFinal\<close> flag. \<open>splitResults\<close> is the loop of lines 66-76 over the entries from
  \<^verbatim>\<open>event.resultIndex\<close> on; it returns \<^verbatim>\<open>final\<close> and \<^verbatim>\<open>interim\<close>.
\<close>

record result =
  transcript :: string
  isFinal :: bool

definition splitResults :: "nat \<Rightarrow> result list \<Rightarrow> string \<times> string" where
  "splitResults resultIndex results =
     foldl (\<lambda>(final, interim) r.
              if isFinal r then (final @ transcript r @ '' '', interim)
              else (final, interim @ transcript r))
       ([], []) (drop resultIndex results)"

text \<open>
  \<^verbatim>\<open>onresult\<close> (lines 65-84). \<^verbatim>\<open>setOriginalText(prev => prev + enhanced)\<close> appends to the
  state React holds; the \<^verbatim>\<open>originalText\<close> in \<^verbatim>\<open>translateText(originalText + enhanced)\<close>
  is the constant of the handler's render. The result is the new state and the
  translation call started, if any. \<open>toLowerCase\<close> is the host function that
  \<^verbatim>\<open>enhanceMedicalTerms\<close> uses.
\<close>

definition onresult ::
  "(string \<Rightarrow> string) \<Rightarrow> nat \<Rightarrow> result list \<Rightarrow> app \<Rightarrow> app \<times> pending option" where
  "onresult toLowerCase resultIndex results a =
     (let (final, interim) = splitResults resultIndex results;
          (a', call) =
            (if final \<noteq> [] then
               (let enhanced = enhanceMedicalTerms toLowerCase final;
                    a1 = a\<lparr>current := (current a)
                            \<lparr>originalText := originalText (current a) @ enhanced\<rparr>\<rparr>
                in translateText (captured a) (originalText (captured a) @ enhanced) a1)
             else (a, None))
      in (a'\<lparr>current := (current a')\<lparr>interimText := interim\<rparr>\<rparr>, call))"

text \<open>\<^verbatim>\<open>onerror\<close> (lines 86-90); \<open>err\<close> is \<^verbatim>\<open>event.error\<close>.\<close>

definition onerror :: "string \<Rightarrow> app \<Rightarrow> app" where
  "onerror err a =
     a\<lparr>current := (current a)
          \<lparr>error := ''Speech recognition error: '' @ err, isListening := False\<rparr>\<rparr>"

text \<open>
  \<^verbatim>\<open>onend\<close> (lines 92-100); \<^verbatim>\<open>isListening\<close> is the constant of the handler's render, and
  \<open>startThrows\<close> says whether \<^verbatim>\<open>recognitionRef.current.start()\<close> throws.
\<close>

definition onend :: "bool \<Rightarrow> app \<Rightarrow> app" where
  "onend startThrows a =
     (if isListening (captured a) \<and> startThrows
      then a\<lparr>current := (current a)\<lparr>isListening := False\<rparr>\<rparr>
      else a)"

subsection \<open>Handlers of the view\<close>

text \<open>
  \<^verbatim>\<open>toggleListening\<close> (lines 180-196), a closure of the latest render. When \<^verbatim>\<open>start()\<close>
  throws, the exception leaves the handler before \<^verbatim>\<open>setIsListening(true)\<close>.
\<close>

definition toggleListening :: "bool \<Rightarrow> app \<Rightarrow> app" where
  "toggleListening startThrows a =
     (if \<not> recognitionRef a
      then a\<lparr>current := (current a)\<lparr>error := ''Speech recognition not available''\<rparr>\<rparr>
      else if isListening (current a)
      then a\<lparr>current := (current a)\<lparr>isListening := False, interimText := []\<rparr>\<rparr>
      else if startThrows
      then a\<lparr>current := (current a)\<lparr>error := []\<rparr>\<rparr>
      else a\<lparr>current := (current a)\<lparr>error := [], isListening := True\<rparr>\<rparr>)"

text \<open>\<^verbatim>\<open>clearSession\<close> (lines 219-224).\<close>

definition clearSession :: "app \<Rightarrow> app" where
  "clearSession a =
     a\<lparr>current := (current a)
          \<lparr>originalText := [], translatedText := [], interimText := [], error := []\<rparr>\<rparr>"

text \<open>\<^verbatim>\<open>clearHistory\<close> (lines 227-230).\<close>

definition clearHistory :: "app \<Rightarrow> app" where
  "clearHistory a =
     a\<lparr>current := (current a)\<lparr>sessions := []\<rparr>,
       localStorage := (localStorage a)(''healthcareTranslationSessions'' := None)\<rparr>"

text \<open>\<^verbatim>\<open>acceptDisclaimer\<close> (lines 233-236).\<close>

definition acceptDisclaimer :: "app \<Rightarrow> app" where
  "acceptDisclaimer a =
     a\<lparr>current := (current a)\<lparr>showDisclaimer := False\<rparr>,
       localStorage := (localStorage a)(''disclaimerShown'' \<mapsto> ''true'')\<rparr>"

text \<open>
  The two \<^verbatim>\<open>select\<close> elements (lines 304-325). A new input language makes the next
  render differ in \<^verbatim>\<open>inputLang\<close>, so the recognition effect runs again in that render;
  the output language is in no dependency list.
\<close>

definition setInputLang :: "string \<Rightarrow> app \<Rightarrow> app" where
  "setInputLang l a =
     (if l = inputLang (current a) then a
      else recognitionEffect (recognitionRef a) (a\<lparr>current := (current a)\<lparr>inputLang := l\<rparr>\<rparr>))"

definition setOutputLang :: "string \<Rightarrow> app \<Rightarrow> app" where
  "setOutputLang l a = a\<lparr>current := (current a)\<lparr>outputLang := l\<rparr>\<rparr>"

subsection \<open>Everything the mounted component does\<close>

text \<open>
  The events of a mounted component: the user's actions, the callbacks of the recognition
  object, and the settling of a translation request. \<open>step\<close> is the component's reaction
  to one event.
\<close>

datatype event =
    SelectInput string
  | SelectOutput string
  | ToggleListening bool
  | ClearSession
  | ClearHistory
  | AcceptDisclaimer
  | OnResult nat "result list"
  | OnError string
  | OnEnd bool
  | Resumed pending response nat string

fun step :: "(string \<Rightarrow> string) \<Rightarrow> json_stringify \<Rightarrow> event \<Rightarrow> app \<Rightarrow> app" where
  "step toLowerCase JSON_stringify (SelectInput l) a = setInputLang l a"
| "step toLowerCase JSON_stringify (SelectOutput l) a = setOutputLang l a"
| "step toLowerCase JSON_stringify (ToggleListening startThrows) a = toggleListening startThrows a"
| "step toLowerCase JSON_stringify ClearSession a = clearSession a"
| "step toLowerCase JSON_stringify ClearHistory a = clearHistory a"
| "step toLowerCase JSON_stringify AcceptDisclaimer a = acceptDisclaimer a"
| "step toLowerCase JSON_stringify (OnResult resultIndex results) a =
     fst (onresult toLowerCase resultIndex results a)"
| "step toLowerCase JSON_stringify (OnError err) a = onerror err a"
| "step toLowerCase JSON_stringify (OnEnd startThrows) a = onend startThrows a"
| "step toLowerCase JSON_stringify (Resumed p r now stamp) a =
     translateTextResume JSON_stringify p r now stamp a"

subsection \<open>Speech output\<close>

text \<open>
  An entry of \<^verbatim>\<open>speechSynthesis.getVoices()\<close>, an utterance, and the synthesiser as the
  list of utterances it has been given and not finished: \<^verbatim>\<open>cancel()\<close> empties it,
  \<^verbatim>\<open>speak\<close> appends to it. \<open>u_voice = None\<close> is an utterance whose \<^verbatim>\<open>voice\<close> was not set.
\<close>

record synthVoice =
  v_name :: string
  v_lang :: string

record utterance =
  u_text :: string
  u_voice :: "synthVoice option"
  u_lang :: string
  u_rate :: real
  u_pitch :: real

text \<open>
  \<^verbatim>\<open>speakText\<close> (lines 199-216). \<open>langVoice\<close> is \<open>None\<close> for \<^verbatim>\<open>undefined\<close>; then
  \<^verbatim>\<open>startsWith(undefined)\<close> looks for the prefix \<open>undefined\<close>, as the host function converts
  its argument to a string.
\<close>

definition speakText ::
  "string \<Rightarrow> string \<Rightarrow> synthVoice list \<Rightarrow> utterance list \<Rightarrow> utterance list" where
  "speakText text lang voices synth =
     (if text = [] then synth
      else
        (let cancelled = [];
             langVoice = map_option voice (find (\<lambda>l. code l = lang) LANGUAGES);
             wanted = (case langVoice of
                         None \<Rightarrow> ''undefined''
                       | Some tag \<Rightarrow> takeWhile (\<lambda>c. c \<noteq> CHR ''-'') tag);
             chosen = (case find (\<lambda>v. startsWith (v_lang v) wanted) voices of
                         Some v \<Rightarrow> Some v
                       | None \<Rightarrow> (case voices of [] \<Rightarrow> None | v # _ \<Rightarrow> Some v));
             utterance = \<lparr>u_text = text, u_voice = chosen,
                          u_lang = (case langVoice of
                                      None \<Rightarrow> ''en-US''
                                    | Some tag \<Rightarrow> if tag = [] then ''en-US'' else tag),
                          u_rate = 0.9, u_pitch = 1\<rparr>
         in cancelled @ [utterance]))"


subsection \<open>Runs of the component\<close>

text \<open>
  \<open>run\<close> feeds a list of events to the component. \<open>spokenAndTranslated\<close> is one
  successful translation as the component produces it: the recognition object delivers
  one final result, the handler calls \<^verbatim>\<open>translateText\<close>, and the request settles with a
  translated string before anything else happens.
\<close>

definition run ::
  "(string \<Rightarrow> string) \<Rightarrow> json_stringify \<Rightarrow> event list \<Rightarrow> app \<Rightarrow> app" where
  "run toLowerCase JSON_stringify evs a =
     foldl (\<lambda>a ev. step toLowerCase JSON_stringify ev a) a evs"

definition spokenAndTranslated ::
  "(string \<Rightarrow> string) \<Rightarrow> json_stringify \<Rightarrow> string \<Rightarrow> string \<Rightarrow> string \<Rightarrow> app \<Rightarrow> nat
     \<Rightarrow> app" where
  "spokenAndTranslated toLowerCase JSON_stringify spoken translated stamp a now =
     (case onresult toLowerCase 0 [\<lparr>transcript = spoken, isFinal = True\<rparr>] a of
        (a', None) \<Rightarrow> a'
      | (a', Some p) \<Rightarrow>
          translateTextResume JSON_stringify p (Translated translated) now stamp a')"

section \<open>Auxiliary notions for the proofs\<close>

text \<open>
  A key the pattern of line 129 reads literally: not empty, word characters only.
  \<open>keyFree ks s\<close>: no word of \<open>s\<close> is one of
  the keys \<open>ks\<close> up to letter case. \<open>goodEntry ks e\<close> collects what the proofs need of a
  table entry \<open>e\<close> with respect to the keys \<open>ks\<close>.
\<close>

definition wordKey :: "string \<Rightarrow> bool" where
  "wordKey abbr = (abbr \<noteq> [] \<and> list_all isWordChar abbr)"

definition keyFree :: "string list \<Rightarrow> string \<Rightarrow> bool" where
  "keyFree ks s = list_all (\<lambda>w. list_all (\<lambda>k. \<not> sameWord k w) ks) (tokens s)"

definition goodEntry :: "string list \<Rightarrow> string \<times> string \<Rightarrow> bool" where
  "goodEntry ks e =
     (wordKey (fst e) \<and> snd e \<noteq> [] \<and> isWordChar (last (snd e)) \<and>
      list_all isASCII (snd e) \<and> map asciiToLower (snd e) = snd e \<and> keyFree ks (snd e))"


section \<open>Enhancement: the scan and the word-wise reading agree\<close>


lemma isWordChar_canonicalize: "isWordChar (canonicalize c) = isWordChar c"
  unfolding isWordChar_def canonicalize_def Let_def
  by (auto simp: of_char_of)

lemma canonicalize_eq_word: "canonicalize a = canonicalize b \<Longrightarrow> isWordChar a = isWordChar b"
  using isWordChar_canonicalize [of a] isWordChar_canonicalize [of b] by simp

lemma map_canonicalize_word:
  "map canonicalize xs = map canonicalize ys \<Longrightarrow> list_all isWordChar xs = list_all isWordChar ys"
proof (induction xs arbitrary: ys)
  case Nil
  then show ?case by simp
next
  case (Cons x xs)
  from Cons.prems obtain y ys' where ys: "ys = y # ys'" by (cases ys) simp_all
  from Cons.prems ys have "canonicalize x = canonicalize y" and "map canonicalize xs = map canonicalize ys'"
    by simp_all
  then have "isWordChar x = isWordChar y" and "list_all isWordChar xs = list_all isWordChar ys'"
    using Cons.IH canonicalize_eq_word by blast+
  with ys show ?case by simp
qed

lemma no_match_nonword:
  assumes "wordKey abbr" "\<not> isWordChar c"
  shows "\<not> matchesAt abbr b (c # cs)"
proof
  assume m: "matchesAt abbr b (c # cs)"
  from assms(1) obtain k ks where k: "abbr = k # ks" "isWordChar k"
    by (cases abbr) (simp_all add: wordKey_def)
  from m k have "canonicalize c = canonicalize k" by (simp add: matchesAt_def)
  with k assms(2) show False using canonicalize_eq_word by blast
qed

lemma no_match_Nil: "wordKey abbr \<Longrightarrow> \<not> matchesAt abbr b []"
  by (simp add: matchesAt_def wordKey_def)

lemma no_match_inside:
  assumes "wordKey abbr"
  shows "\<not> matchesAt abbr True s"
proof (cases s)
  case Nil
  with assms show ?thesis by (simp add: no_match_Nil)
next
  case (Cons c cs)
  show ?thesis
  proof (cases "isWordChar c")
    case True
    with Cons show ?thesis by (simp add: matchesAt_def isWordAt_def)
  next
    case False
    with Cons assms show ?thesis by (simp add: no_match_nonword)
  qed
qed


declare replaceAll.simps [simp del]
declare tokens.simps(2) [simp del]
declare strip.simps [simp del]

lemma replaceAll_skip:
  "\<not> matchesAt abbr b (c # cs) \<Longrightarrow>
   replaceAll abbr full b (c # cs) = c # replaceAll abbr full (isWordChar c) cs"
  by (simp add: replaceAll.simps(2))

lemma replaceAll_hit:
  "matchesAt abbr b (c # cs) \<Longrightarrow> abbr \<noteq> [] \<Longrightarrow>
   replaceAll abbr full b (c # cs) =
     full @ replaceAll abbr full (isWordChar (last (take (length abbr) (c # cs))))
              (drop (length abbr) (c # cs))"
  by (simp only: replaceAll.simps(2) if_True if_False)

lemma replaceAll_Nil: "wordKey abbr \<Longrightarrow> replaceAll abbr full b [] = []"
  by (simp add: replaceAll.simps(1) no_match_Nil)

lemma replaceAll_inside:
  assumes "wordKey abbr"
  shows "replaceAll abbr full True s =
         takeWhile isWordChar s @ replaceAll abbr full True (dropWhile isWordChar s)"
proof (induction s)
  case Nil
  then show ?case by simp
next
  case (Cons c cs)
  have "replaceAll abbr full True (c # cs) = c # replaceAll abbr full (isWordChar c) cs"
    by (rule replaceAll_skip) (rule no_match_inside [OF assms])
  with Cons show ?case by simp
qed

lemma replaceAll_wordBefore:
  assumes "wordKey abbr" "\<not> isWordAt s"
  shows "replaceAll abbr full b s = replaceAll abbr full False s"
proof (cases s)
  case Nil
  with assms show ?thesis by (simp add: replaceAll_Nil)
next
  case (Cons c cs)
  with assms have "\<not> isWordChar c" by (simp add: isWordAt_def)
  with Cons assms show ?thesis by (simp add: replaceAll_skip no_match_nonword)
qed

lemma isWordAt_dropWhile: "\<not> isWordAt (dropWhile isWordChar s)"
  by (induction s) (simp_all add: isWordAt_def)

lemma take_is_takeWhile:
  assumes "list_all P (take n s)" "drop n s = [] \<or> \<not> P (hd (drop n s))"
  shows "take n s = takeWhile P s"
proof -
  have "takeWhile P s = takeWhile P (take n s @ drop n s)" by simp
  also have "\<dots> = take n s @ takeWhile P (drop n s)"
    using assms(1) by (simp only: takeWhile_append2 list_all_iff) 
  also have "takeWhile P (drop n s) = []"
    using assms(2) by (cases "drop n s") auto
  finally show ?thesis by simp
qed

lemma match_word:
  assumes "wordKey abbr" "isWordChar c"
  shows "matchesAt abbr False (c # cs) = sameWord abbr (c # takeWhile isWordChar cs)"
proof
  let ?s = "c # cs" and ?n = "length abbr"
  assume m: "matchesAt abbr False ?s"
  then have eq: "map canonicalize (take ?n ?s) = map canonicalize abbr"
    and le: "?n \<le> length ?s"
    and bd: "isWordChar (last (take ?n ?s)) \<noteq> isWordAt (drop ?n ?s)"
    using assms(1) by (simp_all add: matchesAt_def wordKey_def)
  from eq assms(1) have allw: "list_all isWordChar (take ?n ?s)"
    using map_canonicalize_word wordKey_def by blast
  from assms(1) le have ne: "take ?n ?s \<noteq> []" by (auto simp: wordKey_def)
  with allw have "isWordChar (last (take ?n ?s))" by (simp add: list_all_iff)
  with bd have "\<not> isWordAt (drop ?n ?s)" by simp
  then have "drop ?n ?s = [] \<or> \<not> isWordChar (hd (drop ?n ?s))"
    by (cases "drop ?n ?s") (simp_all add: isWordAt_def)
  with allw have "take ?n ?s = takeWhile isWordChar ?s" by (rule take_is_takeWhile)
  with assms(2) eq show "sameWord abbr (c # takeWhile isWordChar cs)"
    by (simp add: sameWord_def)
next
  let ?s = "c # cs" and ?w = "c # takeWhile isWordChar cs"
  assume "sameWord abbr ?w"
  then have eq: "map canonicalize ?w = map canonicalize abbr" by (simp add: sameWord_def)
  then have len: "length abbr = length ?w" by (metis length_map)
  have s: "?s = ?w @ dropWhile isWordChar cs" by simp
  have tk: "take (length abbr) ?s = ?w" by (subst s) (simp only: len take_all append_take_drop_id take_append, simp)
  have dr: "drop (length abbr) ?s = dropWhile isWordChar cs" by (subst s) (simp only: len drop_append, simp)
  have lw: "isWordChar (last ?w)" using assms(2)
    by (metis last_in_set list.distinct(1) set_ConsD set_takeWhileD)
  show "matchesAt abbr False ?s"
    unfolding matchesAt_def tk dr using eq assms lw isWordAt_dropWhile [of cs] len
    by (simp add: isWordAt_def wordKey_def length_takeWhile_le)
qed


lemma replaceAll_tokens:
  assumes "wordKey abbr"
  shows "replaceAll abbr full False s = replaceWholeWords abbr full s"
proof (induction s rule: tokens.induct)
  case 1
  with assms show ?case by (simp add: replaceAll_Nil replaceWholeWords_def)
next
  case (2 c cs)
  show ?case
  proof (cases "isWordChar c")
    case False
    have "\<not> sameWord abbr [c]"
    proof
      assume "sameWord abbr [c]"
      then have "map canonicalize [c] = map canonicalize abbr" by (simp add: sameWord_def)
      then have "list_all isWordChar [c] = list_all isWordChar abbr" by (rule map_canonicalize_word)
      with assms False show False by (simp add: wordKey_def)
    qed
    moreover have "replaceAll abbr full False (c # cs) = c # replaceAll abbr full False cs"
      using False assms by (simp add: replaceAll_skip no_match_nonword)
    ultimately show ?thesis
      using False 2(2) by (simp add: replaceWholeWords_def tokens.simps(2))
  next
    case True
    let ?w = "c # takeWhile isWordChar cs" and ?r = "dropWhile isWordChar cs"
    have IH: "replaceAll abbr full False ?r = replaceWholeWords abbr full ?r"
      using 2(1) True by simp
    have rest: "replaceAll abbr full True ?r = replaceWholeWords abbr full ?r"
      by (rule trans [OF replaceAll_wordBefore [OF assms isWordAt_dropWhile] IH])
    have tok: "replaceWholeWords abbr full (c # cs) =
               (if sameWord abbr ?w then full else ?w) @ replaceWholeWords abbr full ?r"
      using True by (simp add: replaceWholeWords_def tokens.simps(2))
    show ?thesis
    proof (cases "sameWord abbr ?w")
      case same: True
      then have m: "matchesAt abbr False (c # cs)" using match_word [OF assms True] by simp
      from same have len: "length abbr = length ?w" unfolding sameWord_def by (metis length_map)
      have s: "c # cs = ?w @ ?r" by simp
      have tk: "take (length abbr) (c # cs) = ?w" by (subst s) (simp only: len take_append, simp)
      have dr: "drop (length abbr) (c # cs) = ?r" by (subst s) (simp only: len drop_append, simp)
      have lw: "isWordChar (last ?w)" using True
        by (metis last_in_set list.distinct(1) set_ConsD set_takeWhileD)
      from assms have "abbr \<noteq> []" by (simp add: wordKey_def)
      with m have "replaceAll abbr full False (c # cs) = full @ replaceAll abbr full True ?r"
        using replaceAll_hit [of abbr False c cs full] lw unfolding tk dr by simp
      with rest tok same show ?thesis by simp
    next
      case diff: False
      then have "\<not> matchesAt abbr False (c # cs)" using match_word [OF assms True] by simp
      then have "replaceAll abbr full False (c # cs) = c # replaceAll abbr full True cs"
        using True by (simp add: replaceAll_skip)
      also have "replaceAll abbr full True cs = takeWhile isWordChar cs @ replaceAll abbr full True ?r"
        by (rule replaceAll_inside [OF assms])
      finally show ?thesis using rest tok diff by simp
    qed
  qed
qed


section \<open>Enhancement: words of an enhanced text\<close>


lemmas enhance_eval =
  enhanceMedicalTerms_def MEDICAL_TERMS_def asciiLowerCase_def asciiToLower_def
  replaceAll.simps matchesAt_def isWordAt_def isWordChar_def canonicalize_def
  char_of_def bit_Suc_0_iff

lemmas trim_eval =
  trim_def strip.simps prefixLength_def whiteSpace_def startsWith_def

lemmas table_eval =
  MEDICAL_TERMS_def goodEntry_def wordKey_def keyFree_def sameWord_def isASCII_def
  tokens.simps asciiToLower_def isWordChar_def canonicalize_def char_of_def bit_Suc_0_iff

lemma wordKey_MEDICAL_TERMS: "list_all (\<lambda>e. wordKey (fst e)) MEDICAL_TERMS"
  by (simp add: MEDICAL_TERMS_def wordKey_def isWordChar_def)

lemma good_MEDICAL_TERMS: "list_all (goodEntry (map fst MEDICAL_TERMS)) MEDICAL_TERMS"
  by (simp add: table_eval)

lemma foldl_replace:
  "list_all (\<lambda>e. wordKey (fst e)) kvs \<Longrightarrow>
   foldl (\<lambda>enhanced (abbr, full). replaceAll abbr full False enhanced) s kvs =
   foldl (\<lambda>enhanced (abbr, full). replaceWholeWords abbr full enhanced) s kvs"
  by (induction kvs arbitrary: s) (auto simp: replaceAll_tokens)

lemma concat_tokens: "concat (tokens s) = s"
  by (induction s rule: tokens.induct) (simp_all add: tokens.simps(2))

lemma tokens_word: "isWordChar c \<Longrightarrow> list_all isWordChar cs \<Longrightarrow> tokens (c # cs) = [c # cs]"
proof -
  assume c: "isWordChar c" and cs: "list_all isWordChar cs"
  from cs have tw: "takeWhile isWordChar cs = cs" and dw: "dropWhile isWordChar cs = []"
    by (simp_all add: list_all_iff)
  show ?thesis by (simp only: tokens.simps c if_True tw dw)
qed

lemma tokens_nonword: "\<not> isWordChar c \<Longrightarrow> tokens (c # cs) = [c] # tokens cs"
  by (simp only: tokens.simps(2) if_False)

lemma tokens_wordstart:
  "isWordChar c \<Longrightarrow>
   tokens (c # cs) = (c # takeWhile isWordChar cs) # tokens (dropWhile isWordChar cs)"
  by (simp only: tokens.simps(2) if_True)

lemma takeWhile_stop: "\<not> isWordAt rest \<Longrightarrow> takeWhile isWordChar rest = []"
  by (cases rest) (simp_all add: isWordAt_def)

lemma dropWhile_stop: "\<not> isWordAt rest \<Longrightarrow> dropWhile isWordChar rest = rest"
  by (cases rest) (simp_all add: isWordAt_def)

lemma takeWhile_append_stop:
  "\<not> isWordAt rest \<Longrightarrow> takeWhile isWordChar (cs @ rest) = takeWhile isWordChar cs"
  by (induction cs) (simp_all add: takeWhile_stop)

lemma dropWhile_append_stop:
  "\<not> isWordAt rest \<Longrightarrow> dropWhile isWordChar (cs @ rest) = dropWhile isWordChar cs @ rest"
  by (induction cs) (simp_all add: dropWhile_stop)

lemma tokens_append:
  "v = [] \<or> isWordChar (last v) \<Longrightarrow> \<not> isWordAt rest \<Longrightarrow>
   tokens (v @ rest) = tokens v @ tokens rest"
proof (induction v rule: tokens.induct)
  case 1
  then show ?case by simp
next
  case (2 c cs)
  show ?case
  proof (cases "isWordChar c")
    case False
    with 2(3) have "cs = [] \<or> isWordChar (last cs)" by (cases cs) auto
    then have "tokens (cs @ rest) = tokens cs @ tokens rest" using 2(2) False 2(4) by blast
    then show ?thesis using False by (simp add: tokens_nonword)
  next
    case True
    let ?r = "dropWhile isWordChar cs"
    have "?r = [] \<or> isWordChar (last ?r)"
    proof (cases "?r = []")
      case False
      have "cs = takeWhile isWordChar cs @ ?r" by simp
      with False have "last cs = last ?r" and "cs \<noteq> []" by (metis last_appendR, auto)
      with 2(3) show ?thesis by simp
    qed simp
    then have IH: "tokens (?r @ rest) = tokens ?r @ tokens rest" using 2(1) True 2(4) by blast
    have "tokens ((c # cs) @ rest) = (c # takeWhile isWordChar (cs @ rest)) # tokens (dropWhile isWordChar (cs @ rest))"
      using True by (simp add: tokens_wordstart)
    also have "\<dots> = (c # takeWhile isWordChar cs) # tokens (?r @ rest)"
      by (simp only: takeWhile_append_stop [OF 2(4)] dropWhile_append_stop [OF 2(4)])
    finally show ?thesis using True IH by (simp add: tokens_wordstart)
  qed
qed


lemma nonword_not_sameWord:
  assumes "wordKey abbr" "\<not> isWordChar c"
  shows "\<not> sameWord abbr [c]"
proof
  assume "sameWord abbr [c]"
  then have "map canonicalize [c] = map canonicalize abbr" by (simp add: sameWord_def)
  then have "list_all isWordChar [c] = list_all isWordChar abbr" by (rule map_canonicalize_word)
  with assms show False by (simp add: wordKey_def)
qed

lemma replaceWholeWords_Nil: "replaceWholeWords abbr full [] = []"
  by (simp add: replaceWholeWords_def)

lemma replaceWholeWords_nonword:
  "wordKey abbr \<Longrightarrow> \<not> isWordChar c \<Longrightarrow>
   replaceWholeWords abbr full (c # cs) = c # replaceWholeWords abbr full cs"
  by (simp add: replaceWholeWords_def tokens_nonword nonword_not_sameWord)

lemma replaceWholeWords_word:
  "isWordChar c \<Longrightarrow>
   replaceWholeWords abbr full (c # cs) =
     (if sameWord abbr (c # takeWhile isWordChar cs) then full else c # takeWhile isWordChar cs)
       @ replaceWholeWords abbr full (dropWhile isWordChar cs)"
  by (simp add: replaceWholeWords_def tokens_wordstart)

lemma isWordAt_replace:
  assumes "wordKey abbr" "\<not> isWordAt s"
  shows "\<not> isWordAt (replaceWholeWords abbr full s)"
proof (cases s)
  case Nil
  then show ?thesis by (simp add: replaceWholeWords_Nil isWordAt_def)
next
  case (Cons c cs)
  with assms(2) have "\<not> isWordChar c" by (simp add: isWordAt_def)
  with Cons assms(1) show ?thesis by (simp add: replaceWholeWords_nonword isWordAt_def)
qed

lemma tokens_replace:
  assumes "wordKey abbr" "full \<noteq> []" "isWordChar (last full)"
  shows "tokens (replaceWholeWords abbr full s) =
         concat (map (\<lambda>w. if sameWord abbr w then tokens full else [w]) (tokens s))"
proof (induction s rule: tokens.induct)
  case 1
  then show ?case by (simp add: replaceWholeWords_Nil)
next
  case (2 c cs)
  show ?case
  proof (cases "isWordChar c")
    case False
    have "tokens (replaceWholeWords abbr full cs) =
          concat (map (\<lambda>w. if sameWord abbr w then tokens full else [w]) (tokens cs))"
      using 2(2) False by blast
    with False assms(1) show ?thesis
      by (simp add: replaceWholeWords_nonword tokens_nonword nonword_not_sameWord)
  next
    case True
    let ?w = "c # takeWhile isWordChar cs" and ?r = "dropWhile isWordChar cs"
    let ?g = "\<lambda>w. if sameWord abbr w then tokens full else [w]"
    have IH: "tokens (replaceWholeWords abbr full ?r) = concat (map ?g (tokens ?r))"
      using 2(1) True by blast
    have stop: "\<not> isWordAt (replaceWholeWords abbr full ?r)"
      by (rule isWordAt_replace [OF assms(1) isWordAt_dropWhile])
    have lw: "isWordChar (last ?w)" using True
      by (metis last_in_set list.distinct(1) set_ConsD set_takeWhileD)
    have tw: "tokens ?w = [?w]"
      by (rule tokens_word [OF True]) (auto simp: list_all_iff dest: set_takeWhileD)
    have rhs: "concat (map ?g (tokens (c # cs))) = ?g ?w @ concat (map ?g (tokens ?r))"
      by (simp only: tokens_wordstart [OF True] list.map concat.simps)
    show ?thesis
    proof (cases "sameWord abbr ?w")
      case same: True
      have "replaceWholeWords abbr full (c # cs) = full @ replaceWholeWords abbr full ?r"
        by (simp only: replaceWholeWords_word [OF True] same if_True)
      moreover have "tokens (full @ replaceWholeWords abbr full ?r) =
                     tokens full @ tokens (replaceWholeWords abbr full ?r)"
        using assms(3) stop by (intro tokens_append) simp_all
      ultimately show ?thesis by (simp only: rhs IH same if_True)
    next
      case diff: False
      have "replaceWholeWords abbr full (c # cs) = ?w @ replaceWholeWords abbr full ?r"
        by (simp only: replaceWholeWords_word [OF True] diff if_False)
      moreover have "tokens (?w @ replaceWholeWords abbr full ?r) =
                     tokens ?w @ tokens (replaceWholeWords abbr full ?r)"
        using lw stop by (intro tokens_append) simp_all
      ultimately show ?thesis by (simp only: rhs IH diff if_False tw)
    qed
  qed
qed

lemma keyFree_iff:
  "keyFree ks s = (\<forall>w \<in> set (tokens s). \<forall>k \<in> set ks. \<not> sameWord k w)"
  by (simp add: keyFree_def list_all_iff)

lemma keyFree_mono: "set ks \<subseteq> set ks' \<Longrightarrow> keyFree ks' s \<Longrightarrow> keyFree ks s"
  by (auto simp: keyFree_iff)

lemma keyFree_replace:
  assumes "wordKey k" "full \<noteq> []" "isWordChar (last full)"
    and "keyFree (k # ks) full" "keyFree ks s"
  shows "keyFree (k # ks) (replaceWholeWords k full s)"
  using assms(4,5) unfolding keyFree_iff tokens_replace [OF assms(1-3)]
  by (auto split: if_splits)

lemma keyFree_fixed:
  assumes "keyFree ks s" "k \<in> set ks"
  shows "replaceWholeWords k full s = s"
proof -
  have "map (\<lambda>w. if sameWord k w then full else w) (tokens s) = tokens s"
    using assms by (intro map_idI) (auto simp: keyFree_iff)
  then show ?thesis by (simp add: replaceWholeWords_def concat_tokens)
qed


lemma foldl_keyFree_fixed:
  "keyFree (map fst kvs) s \<Longrightarrow>
   foldl (\<lambda>enhanced (abbr, full). replaceWholeWords abbr full enhanced) s kvs = s"
proof (induction kvs)
  case Nil
  then show ?case by simp
next
  case (Cons e kvs)
  obtain k full where e: "e = (k, full)" by (cases e)
  from Cons.prems e have "replaceWholeWords k full s = s"
    using keyFree_fixed [of "k # map fst kvs" s k full] by simp
  moreover from Cons.prems have "keyFree (map fst kvs) s" by (rule keyFree_mono [rotated]) auto
  ultimately show ?case using Cons.IH e by simp
qed

lemma keyFree_foldl:
  assumes "list_all (goodEntry allKeys) kvs" "set seen \<union> fst ` set kvs \<subseteq> set allKeys" "keyFree seen s"
  shows "keyFree (rev (map fst kvs) @ seen)
           (foldl (\<lambda>enhanced (abbr, full). replaceWholeWords abbr full enhanced) s kvs)"
  using assms
proof (induction kvs arbitrary: s seen)
  case Nil
  then show ?case by simp
next
  case (Cons e kvs)
  obtain k full where e: "e = (k, full)" by (cases e)
  from Cons.prems(1) e have g: "wordKey k" "full \<noteq> []" "isWordChar (last full)" "keyFree allKeys full"
    by (simp_all add: goodEntry_def)
  from Cons.prems(2) e have sub: "set (k # seen) \<subseteq> set allKeys" by auto
  have kf: "keyFree (k # seen) (replaceWholeWords k full s)"
    using g(1-3) keyFree_mono [OF sub g(4)] Cons.prems(3) by (rule keyFree_replace)
  from Cons.prems(1) have "list_all (goodEntry allKeys) kvs" by simp
  moreover from Cons.prems(2) sub have "set (k # seen) \<union> fst ` set kvs \<subseteq> set allKeys" by auto
  moreover note kf
  ultimately have "keyFree (rev (map fst kvs) @ k # seen)
      (foldl (\<lambda>enhanced (abbr, full). replaceWholeWords abbr full enhanced)
         (replaceWholeWords k full s) kvs)"
    by (rule Cons.IH)
  with e show ?case by simp
qed

lemma isWordChar_isASCII: "isWordChar c \<Longrightarrow> isASCII c"
  by (auto simp: isWordChar_def isASCII_def Let_def)

lemma sameWord_ascii:
  assumes "wordKey k" "sameWord k w"
  shows "w \<noteq> [] \<and> list_all isASCII w"
proof -
  from assms(2) have eq: "map canonicalize w = map canonicalize k" by (simp add: sameWord_def)
  then have "length w = length k" by (metis length_map)
  with assms(1) have "w \<noteq> []" by (auto simp: wordKey_def)
  moreover from eq assms(1) have "list_all isWordChar w"
    using map_canonicalize_word wordKey_def by blast
  then have "list_all isASCII w" by (auto simp: list_all_iff isWordChar_isASCII)
  ultimately show ?thesis by simp
qed

text \<open>
  Lower-casing keeps a text it kept before one key was replaced: the words are replaced
  one after the other, each a run of ASCII characters giving way to the expansion.
\<close>

lemma kept_replace_tokens:
  assumes "keepsLowerCase L" "wordKey k" "list_all isASCII full" "map asciiToLower full = full"
  shows "L (pre @ concat ts) = pre @ concat ts \<Longrightarrow>
         L (pre @ concat (map (\<lambda>w. if sameWord k w then full else w) ts)) =
           pre @ concat (map (\<lambda>w. if sameWord k w then full else w) ts)"
proof (induction ts arbitrary: pre)
  case Nil
  then show ?case by simp
next
  case (Cons t ts)
  show ?case
  proof (cases "sameWord k t")
    case True
    from sameWord_ascii [OF assms(2) True] have t: "t \<noteq> []" "list_all isASCII t" by simp_all
    from Cons.prems have "L (pre @ t @ concat ts) = pre @ t @ concat ts" by simp
    with assms(1,3,4) t have "L (pre @ full @ concat ts) = pre @ full @ concat ts"
      unfolding keepsLowerCase_def by blast
    then have "L ((pre @ full) @ concat ts) = (pre @ full) @ concat ts" by simp
    from Cons.IH [OF this] True show ?thesis by simp
  next
    case False
    from Cons.prems have "L ((pre @ t) @ concat ts) = (pre @ t) @ concat ts" by simp
    from Cons.IH [OF this] False show ?thesis by simp
  qed
qed

lemma kept_replace:
  assumes "keepsLowerCase L" "wordKey k" "list_all isASCII full" "map asciiToLower full = full"
    and "L s = s"
  shows "L (replaceWholeWords k full s) = replaceWholeWords k full s"
proof -
  from assms(5) have "L ([] @ concat (tokens s)) = [] @ concat (tokens s)"
    by (simp add: concat_tokens)
  from kept_replace_tokens [OF assms(1-4) this] show ?thesis
    by (simp add: replaceWholeWords_def)
qed

lemma kept_foldl:
  assumes "keepsLowerCase L"
  shows "list_all (goodEntry allKeys) kvs \<Longrightarrow> L s = s \<Longrightarrow>
         L (foldl (\<lambda>enhanced (abbr, full). replaceWholeWords abbr full enhanced) s kvs) =
           foldl (\<lambda>enhanced (abbr, full). replaceWholeWords abbr full enhanced) s kvs"
proof (induction kvs arbitrary: s)
  case Nil
  then show ?case by simp
next
  case (Cons e kvs)
  obtain k full where e: "e = (k, full)" by (cases e)
  with Cons.prems have "L (replaceWholeWords k full s) = replaceWholeWords k full s"
    by (intro kept_replace [OF assms]) (simp_all add: goodEntry_def)
  with Cons e show ?case by simp
qed

text \<open>The function \<open>asciiLowerCase\<close> has both properties asked of the host function.\<close>

lemma asciiToLower_idem: "asciiToLower (asciiToLower c) = asciiToLower c"
  unfolding asciiToLower_def Let_def by (auto simp: of_char_of)


lemma keepsLowerCase_asciiLowerCase: "keepsLowerCase asciiLowerCase"
  unfolding keepsLowerCase_def asciiLowerCase_def
  by (auto simp: asciiToLower_idem)

section \<open>Claims about the enhancement\<close>




text \<open>
  Claim C10. With the table as shipped, enhancing an enhanced text changes nothing: the
  result of \<^verbatim>\<open>enhanceMedicalTerms\<close> is kept by lower-casing and none of its words is a key,
  since every expansion is lower-case and made of words that are not keys.
\<close>

theorem enhanceMedicalTerms_idempotent:
  assumes "keepsLowerCase toLowerCase"
  shows "enhanceMedicalTerms toLowerCase (enhanceMedicalTerms toLowerCase text) =
         enhanceMedicalTerms toLowerCase text"
proof -
  let ?step = "\<lambda>enhanced (abbr, full). replaceWholeWords abbr full enhanced"
  let ?keys = "map fst MEDICAL_TERMS"
  have enh: "enhanceMedicalTerms toLowerCase t = foldl ?step (toLowerCase t) MEDICAL_TERMS" for t
    unfolding enhanceMedicalTerms_def by (rule foldl_replace [OF wordKey_MEDICAL_TERMS])
  let ?e = "enhanceMedicalTerms toLowerCase text"
  have "keyFree (rev ?keys @ []) (foldl ?step (toLowerCase text) MEDICAL_TERMS)"
    by (rule keyFree_foldl [OF good_MEDICAL_TERMS]) (simp_all add: keyFree_iff)
  then have free: "keyFree ?keys ?e"
    unfolding enh by (rule keyFree_mono [rotated]) simp
  from assms have "toLowerCase (toLowerCase text) = toLowerCase text"
    by (simp add: keepsLowerCase_def)
  then have "toLowerCase ?e = ?e"
    unfolding enh by (rule kept_foldl [OF assms good_MEDICAL_TERMS])
  then have "enhanceMedicalTerms toLowerCase ?e = foldl ?step ?e MEDICAL_TERMS"
    by (simp only: enh [of ?e])
  also have "\<dots> = ?e" by (rule foldl_keyFree_fixed [OF free])
  finally show ?thesis .
qed

theorem enhanceMedicalTerms_idempotent_witness:
  "keepsLowerCase asciiLowerCase \<and>
   enhanceMedicalTerms asciiLowerCase (enhanceMedicalTerms asciiLowerCase ''Hx: BP'') =
     enhanceMedicalTerms asciiLowerCase ''Hx: BP'' \<and>
   enhanceMedicalTerms asciiLowerCase ''Hx: BP'' = ''history: blood pressure''"
proof -
  have "enhanceMedicalTerms asciiLowerCase ''Hx: BP'' = ''history: blood pressure''"
    by (simp add: enhance_eval)
  with enhanceMedicalTerms_idempotent [OF keepsLowerCase_asciiLowerCase, of "''Hx: BP''"]
    keepsLowerCase_asciiLowerCase
  show ?thesis by simp
qed

section \<open>Claims about the component\<close>

lemma mount_fresh:
  "mount JSON_parse True Map.empty =
     Inr \<lparr>current = initialState, captured = initialState, recognitionRef = True,
          localStorage = Map.empty\<rparr>"
  by (simp add: mount_def loadEffect_def recognitionEffect_def truthy_def)

text \<open>
  What \<^verbatim>\<open>onresult\<close> does to the state, and the translation call it starts: the enhanced
  final text is appended to the accumulated text, the interim text is replaced and nothing
  is persisted; the call is made on the \<^verbatim>\<open>originalText\<close> of the handler's render.
\<close>

lemma onresult_state:
  "originalText (current (fst (onresult L i rs a))) =
     originalText (current a) @
       (if fst (splitResults i rs) = [] then []
        else enhanceMedicalTerms L (fst (splitResults i rs))) \<and>
   interimText (current (fst (onresult L i rs a))) = snd (splitResults i rs) \<and>
   sessions (current (fst (onresult L i rs a))) = sessions (current a) \<and>
   localStorage (fst (onresult L i rs a)) = localStorage a \<and>
   captured (fst (onresult L i rs a)) = captured a"
  by (simp add: onresult_def translateText_def Let_def split: prod.splits)

lemma onresult_call:
  "snd (onresult L i rs a) =
     (if fst (splitResults i rs) = [] \<or>
         trim (originalText (captured a) @ enhanceMedicalTerms L (fst (splitResults i rs))) = []
      then None
      else Some \<lparr>p_text = originalText (captured a) @ enhanceMedicalTerms L (fst (splitResults i rs)),
                 p_render = captured a\<rparr>)"
  by (simp add: onresult_def translateText_def Let_def split: prod.splits)

text \<open>
  The history on display never grows beyond ten records, whatever the events.
\<close>

lemma step_sessions_bounded:
  assumes "length (sessions (current a)) \<le> 10"
  shows "length (sessions (current (step L JSON_stringify ev a))) \<le> 10"
proof (cases ev)
  case (SelectInput l)
  with assms show ?thesis by (simp add: setInputLang_def recognitionEffect_def)
next
  case (OnResult i rs)
  with assms show ?thesis by (simp add: onresult_state)
next
  case (Resumed p r now stamp)
  with assms show ?thesis
    by (cases r) (simp_all add: translateTextResume_def saveSession_def Let_def)
qed (use assms in \<open>simp_all add: setOutputLang_def toggleListening_def clearSession_def
      clearHistory_def acceptDisclaimer_def onerror_def onend_def\<close>)

lemma run_sessions_bounded:
  "length (sessions (current a)) \<le> 10 \<Longrightarrow>
   length (sessions (current (run L JSON_stringify evs a))) \<le> 10"
  unfolding run_def
  by (induction evs arbitrary: a) (simp_all add: step_sessions_bounded)

lemma enhance_fever: "enhanceMedicalTerms asciiLowerCase ''fever '' = ''fever ''"
  by (simp add: enhance_eval)

lemma trim_fever: "trim ''fever '' \<noteq> []"
  by (simp add: trim_eval)

text \<open>
  \<open>trim\<close> on white space outside the ASCII range: a no-break space alone, and an
  ideographic space and a byte order mark around a text.
\<close>

lemma trim_examples:
  "trim [CHR 0xC2, CHR 0xA0] = [] \<and>
   trim ([CHR 0xE3, CHR 0x80, CHR 0x80] @ '' '' @ [CHR 0x09]) = [] \<and>
   trim ('' '' @ [CHR 0xE3, CHR 0x80, CHR 0x80] @ ''a  b'' @
           [CHR 0xEF, CHR 0xBB, CHR 0xBF, CHR 0x0A]) = ''a  b'' \<and>
   trim [] = []"
  by (simp add: trim_eval)

text \<open>
  What one successful translation leaves behind when the recognition handlers are those
  of the first render: the history is built from the \<^verbatim>\<open>sessions\<close> of that render, which
  is empty, not from the history on display; and the handlers stay those of the first
  render. So any number of successful translations leaves one session record.
\<close>

lemma spokenAndTranslated_fresh:
  assumes "captured a = initialState"
  shows "captured (spokenAndTranslated asciiLowerCase S ''fever'' tr st a n) = initialState \<and>
         sessions (current (spokenAndTranslated asciiLowerCase S ''fever'' tr st a n)) =
           [\<lparr>s_id = n, s_timestamp = st, s_inputLang = ''en'', s_outputLang = ''es'',
             s_original = ''fever '', s_translated = tr\<rparr>] \<and>
         localStorage (spokenAndTranslated asciiLowerCase S ''fever'' tr st a n) ''healthcareTranslationSessions'' =
           Some (S (sessions (current (spokenAndTranslated asciiLowerCase S ''fever'' tr st a n))))"
  using assms trim_fever
  by (simp add: spokenAndTranslated_def onresult_def splitResults_def enhance_fever
      translateText_def translateTextResume_def saveSession_def initialState_def Let_def)

lemma history_of_fresh_handlers:
  assumes "captured a = initialState" "ns \<noteq> []"
  shows "captured (foldl (spokenAndTranslated asciiLowerCase S ''fever'' tr st) a ns) = initialState \<and>
         map s_id (sessions (current (foldl (spokenAndTranslated asciiLowerCase S ''fever'' tr st) a ns))) = [last ns] \<and>
         localStorage (foldl (spokenAndTranslated asciiLowerCase S ''fever'' tr st) a ns) ''healthcareTranslationSessions'' =
           Some (S (sessions (current (foldl (spokenAndTranslated asciiLowerCase S ''fever'' tr st) a ns))))"
  using assms
proof (induction ns arbitrary: a)
  case Nil
  then show ?case by simp
next
  case (Cons n ns)
  let ?b = "spokenAndTranslated asciiLowerCase S ''fever'' tr st a n"
  note b = spokenAndTranslated_fresh [OF Cons.prems(1), of S tr st n]
  show ?case
  proof (cases "ns = []")
    case True
    with b show ?thesis by simp
  next
    case False
    from b have "captured ?b = initialState" by simp
    from Cons.IH [OF this False] False show ?thesis by simp
  qed
qed

text \<open>
  Claim C2 says that the history holds the ten most recent session records, newest first,
  once eleven translations have succeeded. The component does not do that. Mounted on an
  empty store, its recognition handlers are closures of the first render, in which
  \<^verbatim>\<open>sessions\<close> is the empty list; every \<^verbatim>\<open>saveSession\<close> computes
  \<^verbatim>\<open>[session, ...sessions].slice(0, 10)\<close> from that list. After eleven successful
  translations, numbered by their \<^verbatim>\<open>id\<close>, the history on display and the persisted copy
  hold the eleventh record and nothing else. (The spoken texts are ASCII, on which the
  host's lower-casing is \<open>asciiLowerCase\<close>.)
\<close>

theorem history_after_eleven_translations:
  "case mount JSON_parse True Map.empty of
     Inl e \<Rightarrow> False
   | Inr a0 \<Rightarrow>
       (let a11 = foldl (spokenAndTranslated asciiLowerCase JSON_stringify ''fever'' ''fiebre'' ''t'') a0
                    [1, 2, 3, 4, 5, 6, 7, 8, 9, 10, 11]
        in map s_id (sessions (current a11)) = [11] \<and>
           length (sessions (current a11)) = 1 \<and>
           localStorage a11 ''healthcareTranslationSessions'' =
             Some (JSON_stringify (sessions (current a11))))"
proof -
  let ?a0 = "\<lparr>current = initialState, captured = initialState, recognitionRef = True,
          localStorage = Map.empty\<rparr>"
  have "captured ?a0 = initialState" by simp
  from history_of_fresh_handlers [OF this, of "[1, 2, 3, 4, 5, 6, 7, 8, 9, 10, 11]" JSON_stringify "''fiebre''" "''t''"]
  have h: "map s_id (sessions (current (foldl (spokenAndTranslated asciiLowerCase JSON_stringify ''fever'' ''fiebre'' ''t'') ?a0
                    [1, 2, 3, 4, 5, 6, 7, 8, 9, 10, 11]))) = [11]"
    and st: "localStorage (foldl (spokenAndTranslated asciiLowerCase JSON_stringify ''fever'' ''fiebre'' ''t'') ?a0
                    [1, 2, 3, 4, 5, 6, 7, 8, 9, 10, 11]) ''healthcareTranslationSessions'' =
             Some (JSON_stringify (sessions (current (foldl (spokenAndTranslated asciiLowerCase JSON_stringify ''fever'' ''fiebre'' ''t'') ?a0
                    [1, 2, 3, 4, 5, 6, 7, 8, 9, 10, 11]))))"
    by simp_all
  from h have "length (sessions (current (foldl (spokenAndTranslated asciiLowerCase JSON_stringify ''fever'' ''fiebre'' ''t'') ?a0
                    [1, 2, 3, 4, 5, 6, 7, 8, 9, 10, 11]))) = 1"
    by (metis length_map length_Cons list.size(3) One_nat_def)
  with h st show ?thesis by (simp only: mount_fresh sum.case Let_def)
qed

text \<open>
  Claim C3. When \<^verbatim>\<open>translateText\<close> is called on a text that is not blank and the request
  fails (it is rejected, or its response cannot be decoded), then the call is made, and
  neither its start nor its failure touches the translated text on display, the history or
  the store, whatever else has happened in between; the failure sets the message
  \<open>Translation failed. Please try again.\<close>, which is not empty, and ends the busy state.
\<close>

theorem translateText_failure:
  assumes "trim text \<noteq> []" and "r = Rejected \<or> r = Undecodable"
  shows "\<exists>a' p. translateText render text a = (a', Some p) \<and>
           translatedText (current a') = translatedText (current a) \<and>
           sessions (current a') = sessions (current a) \<and>
           localStorage a' = localStorage a \<and>
           (\<forall>b. translatedText (current (translateTextResume JSON_stringify p r now stamp b)) = translatedText (current b) \<and>
                sessions (current (translateTextResume JSON_stringify p r now stamp b)) = sessions (current b) \<and>
                localStorage (translateTextResume JSON_stringify p r now stamp b) = localStorage b \<and>
                error (current (translateTextResume JSON_stringify p r now stamp b)) = ''Translation failed. Please try again.'' \<and>
                error (current (translateTextResume JSON_stringify p r now stamp b)) \<noteq> [] \<and>
                \<not> isTranslating (current (translateTextResume JSON_stringify p r now stamp b)))"
  using assms by (auto simp: translateText_def translateTextResume_def)

theorem translateText_failure_witness:
  "trim ''fever'' \<noteq> [] \<and>
   (let a = \<lparr>current = initialState\<lparr>translatedText := ''hola''\<rparr>, captured = initialState,
             recognitionRef = True, localStorage = Map.empty\<rparr>;
        (a', call) = translateText initialState ''fever'' a;
        b = translateTextResume (\<lambda>l. []) (the call) Rejected 7 ''t'' a'
    in translatedText (current b) = ''hola'' \<and> sessions (current b) = [] \<and>
       localStorage b = Map.empty \<and> error (current b) = ''Translation failed. Please try again.'')"
proof -
  have t: "trim ''fever'' \<noteq> []" by (simp add: trim_eval)
  let ?a = "\<lparr>current = initialState\<lparr>translatedText := ''hola''\<rparr>, captured = initialState,
             recognitionRef = True, localStorage = Map.empty\<rparr>"
  from translateText_failure [OF t, of Rejected initialState ?a "\<lambda>l. []" 7 "''t''"]
  obtain a' p where ap: "translateText initialState ''fever'' ?a = (a', Some p)"
      "translatedText (current a') = translatedText (current ?a)"
      "sessions (current a') = sessions (current ?a)"
      "localStorage a' = localStorage ?a"
    and all: "\<And>b. translatedText (current (translateTextResume (\<lambda>l. []) p Rejected 7 ''t'' b)) = translatedText (current b) \<and>
                sessions (current (translateTextResume (\<lambda>l. []) p Rejected 7 ''t'' b)) = sessions (current b) \<and>
                localStorage (translateTextResume (\<lambda>l. []) p Rejected 7 ''t'' b) = localStorage b \<and>
                error (current (translateTextResume (\<lambda>l. []) p Rejected 7 ''t'' b)) = ''Translation failed. Please try again.''"
    by auto
  from all [of a'] ap t show ?thesis by (simp add: initialState_def Let_def)
qed

text \<open>
  Claim C4 says that the text passed to translation is the accumulated original text with
  the new enhanced segment. The component passes something else: \<^verbatim>\<open>onresult\<close> appends the
  enhanced segment to the state React holds, but hands \<^verbatim>\<open>translateText\<close> the
  \<^verbatim>\<open>originalText\<close> of the handler's own render plus the segment. Mounted on an empty store
  and given the final results \<open>fever\<close> and then \<open>and bp\<close>, the accumulated text is
  \<open>fever and blood pressure\<close> while the second translation call gets \<open>and blood pressure\<close>.
  (The spoken texts are ASCII, on which the host's lower-casing is \<open>asciiLowerCase\<close>.)
\<close>

theorem onresult_translates_handler_text:
  "case mount JSON_parse True Map.empty of
     Inl e \<Rightarrow> False
   | Inr a0 \<Rightarrow>
       (let (a1, c1) = onresult asciiLowerCase 0 [\<lparr>transcript = ''fever'', isFinal = True\<rparr>] a0;
            (a2, c2) = onresult asciiLowerCase 1 [\<lparr>transcript = ''fever'', isFinal = True\<rparr>,
                                   \<lparr>transcript = ''and bp'', isFinal = True\<rparr>] a1
        in originalText (current a2) = ''fever and blood pressure '' \<and>
           map_option p_text c1 = Some ''fever '' \<and>
           map_option p_text c2 = Some ''and blood pressure '')"
proof -
  note e1 = enhance_fever
  have e2: "enhanceMedicalTerms asciiLowerCase ''and bp '' = ''and blood pressure ''" by (simp add: enhance_eval)
  note t1 = trim_fever
  have t2: "trim ''and blood pressure '' \<noteq> []" by (simp add: trim_eval)
  show ?thesis
    using t1 t2
    by (simp add: mount_fresh onresult_def splitResults_def translateText_def e1 e2
        initialState_def Let_def)
qed

text \<open>
  Claim C5. Clear-session empties the accumulated original text, the interim text and the
  translated text, and leaves the history in memory and the store as they are.
\<close>

theorem clearSession_frame:
  "originalText (current (clearSession a)) = [] \<and>
   interimText (current (clearSession a)) = [] \<and>
   translatedText (current (clearSession a)) = [] \<and>
   sessions (current (clearSession a)) = sessions (current a) \<and>
   localStorage (clearSession a) = localStorage a"
  by (simp add: clearSession_def)

text \<open>
  Claim C6. Clear-history empties the list of sessions in memory and removes the history
  entry from the store, every other entry staying as it is; a component mounted on the
  store it leaves starts with an empty history.
\<close>

theorem clearHistory_empties:
  "sessions (current (clearHistory a)) = [] \<and>
   localStorage (clearHistory a) = (localStorage a)(''healthcareTranslationSessions'' := None) \<and>
   localStorage (clearHistory a) ''healthcareTranslationSessions'' = None \<and>
   (\<exists>b. mount JSON_parse supported (localStorage (clearHistory a)) = Inr b \<and>
        sessions (current b) = [])"
  by (simp add: clearHistory_def mount_def loadEffect_def recognitionEffect_def truthy_def
      initialState_def Let_def)

lemma step_disclaimerShown:
  "localStorage (step L JSON_stringify ev a) ''disclaimerShown'' =
     (if ev = AcceptDisclaimer then Some ''true'' else localStorage a ''disclaimerShown'')"
proof (cases ev)
  case (SelectInput l)
  then show ?thesis by (simp add: setInputLang_def recognitionEffect_def)
next
  case (OnResult i rs)
  then show ?thesis
    by (simp add: onresult_def translateText_def Let_def split: prod.splits)
next
  case (Resumed p r now stamp)
  then show ?thesis
    by (cases r) (simp_all add: translateTextResume_def saveSession_def Let_def)
qed (simp_all add: setOutputLang_def toggleListening_def clearSession_def clearHistory_def
      acceptDisclaimer_def onerror_def onend_def)

lemma run_disclaimerShown:
  "localStorage a ''disclaimerShown'' = Some ''true'' \<Longrightarrow>
   localStorage (run L JSON_stringify evs a) ''disclaimerShown'' = Some ''true''"
  unfolding run_def
  by (induction evs arbitrary: a) (simp_all add: step_disclaimerShown)

lemma mount_disclaimer:
  "truthy (storage ''disclaimerShown'') \<Longrightarrow>
   (case mount JSON_parse supported storage of
      Inl e \<Rightarrow> truthy (storage ''healthcareTranslationSessions'') \<and>
               JSON_parse (the (storage ''healthcareTranslationSessions'')) = None
    | Inr b \<Rightarrow> \<not> showDisclaimer (current b))"
  by (simp add: mount_def loadEffect_def recognitionEffect_def Let_def split: option.splits)

text \<open>
  Claim C7. Accepting the disclaimer stores the string \<open>true\<close>, which is truthy, under
  \<open>disclaimerShown\<close>. No event of the component changes that entry afterwards. Mounting
  the component on any store the component has left since then ends with the disclaimer
  off; the mount can fail only where the history entry of that store does not parse, and
  then nothing is rendered at all.
\<close>

theorem disclaimer_persisted:
  "localStorage (acceptDisclaimer a) ''disclaimerShown'' = Some ''true'' \<and>
   truthy (Some ''true'') \<and>
   localStorage (run toLowerCase JSON_stringify evs (acceptDisclaimer a)) ''disclaimerShown'' = Some ''true'' \<and>
   (case mount JSON_parse supported (localStorage (run toLowerCase JSON_stringify evs (acceptDisclaimer a))) of
      Inl e \<Rightarrow>
        truthy (localStorage (run toLowerCase JSON_stringify evs (acceptDisclaimer a))
                  ''healthcareTranslationSessions'') \<and>
        JSON_parse (the (localStorage (run toLowerCase JSON_stringify evs (acceptDisclaimer a))
                           ''healthcareTranslationSessions'')) = None
    | Inr b \<Rightarrow> \<not> showDisclaimer (current b))"
proof -
  have acc: "localStorage (acceptDisclaimer a) ''disclaimerShown'' = Some ''true''"
    by (simp add: acceptDisclaimer_def)
  have tr: "truthy (Some ''true'')" by (simp add: truthy_def)
  have kept: "localStorage (run toLowerCase JSON_stringify evs (acceptDisclaimer a)) ''disclaimerShown'' = Some ''true''"
    by (rule run_disclaimerShown [OF acc])
  with tr have "truthy (localStorage (run toLowerCase JSON_stringify evs (acceptDisclaimer a)) ''disclaimerShown'')"
    by simp
  then have "case mount JSON_parse supported (localStorage (run toLowerCase JSON_stringify evs (acceptDisclaimer a))) of
      Inl e \<Rightarrow>
        truthy (localStorage (run toLowerCase JSON_stringify evs (acceptDisclaimer a))
                  ''healthcareTranslationSessions'') \<and>
        JSON_parse (the (localStorage (run toLowerCase JSON_stringify evs (acceptDisclaimer a))
                           ''healthcareTranslationSessions'')) = None
    | Inr b \<Rightarrow> \<not> showDisclaimer (current b)"
    by (rule mount_disclaimer)
  with acc tr kept show ?thesis by simp
qed

lemma find_first:
  "find P xs = Some x \<Longrightarrow> \<exists>ys zs. xs = ys @ x # zs \<and> P x \<and> (\<forall>y \<in> set ys. \<not> P y)"
proof (induction xs)
  case Nil
  then show ?case by simp
next
  case (Cons a xs)
  show ?case
  proof (cases "P a")
    case True
    with Cons.prems have "a = x" by simp
    with True have "a # xs = [] @ x # xs \<and> P x \<and> (\<forall>y \<in> set []. \<not> P y)" by simp
    then show ?thesis by blast
  next
    case False
    with Cons obtain ys zs where "xs = ys @ x # zs" "P x" "\<forall>y \<in> set ys. \<not> P y" by auto
    with False have "a # xs = (a # ys) @ x # zs \<and> P x \<and> (\<forall>y \<in> set (a # ys). \<not> P y)" by simp
    then show ?thesis by blast
  qed
qed

text \<open>
  Claim C8. \<^verbatim>\<open>speakText\<close> on the empty text leaves the synthesiser as it is. On any other
  text it leaves exactly one utterance in the synthesiser, whatever was there before: the
  text, at rate 0.9 and pitch 1, with the first voice whose language starts with the
  wanted prefix, or the first voice of the list when no voice has that prefix, or no
  voice when the list is empty. The wanted prefix is the locale tag of the language code's
  catalogue entry up to its hyphen (and the word \<open>undefined\<close> for a code the catalogue
  does not have).
\<close>

theorem speakText_contract:
  assumes "wanted = (case find (\<lambda>l. code l = lang) LANGUAGES of
                       None \<Rightarrow> ''undefined''
                     | Some entry \<Rightarrow> takeWhile (\<lambda>c. c \<noteq> CHR ''-'') (voice entry))"
  shows "speakText [] lang voices synth = synth \<and>
         (text \<noteq> [] \<longrightarrow>
          (\<exists>u. speakText text lang voices synth = [u] \<and> u_text u = text \<and>
             u_rate u = 0.9 \<and> u_pitch u = 1 \<and>
             (if \<exists>v \<in> set voices. startsWith (v_lang v) wanted
              then \<exists>before v after. voices = before @ v # after \<and> u_voice u = Some v \<and>
                     startsWith (v_lang v) wanted \<and>
                     (\<forall>w \<in> set before. \<not> startsWith (v_lang w) wanted)
              else u_voice u = (case voices of [] \<Rightarrow> None | v # _ \<Rightarrow> Some v))))"
proof (intro conjI impI)
  show "speakText [] lang voices synth = synth" by (simp add: speakText_def)
next
  assume nonempty: "text \<noteq> []"
  have w: "(case map_option voice (find (\<lambda>l. code l = lang) LANGUAGES) of
              None \<Rightarrow> ''undefined''
            | Some tag \<Rightarrow> takeWhile (\<lambda>c. c \<noteq> CHR ''-'') tag) = wanted"
    unfolding assms by (cases "find (\<lambda>l. code l = lang) LANGUAGES") simp_all
  show "\<exists>u. speakText text lang voices synth = [u] \<and> u_text u = text \<and>
             u_rate u = 0.9 \<and> u_pitch u = 1 \<and>
             (if \<exists>v \<in> set voices. startsWith (v_lang v) wanted
              then \<exists>before v after. voices = before @ v # after \<and> u_voice u = Some v \<and>
                     startsWith (v_lang v) wanted \<and>
                     (\<forall>w \<in> set before. \<not> startsWith (v_lang w) wanted)
              else u_voice u = (case voices of [] \<Rightarrow> None | v # _ \<Rightarrow> Some v))"
  proof (cases "find (\<lambda>v. startsWith (v_lang v) wanted) voices")
    case None
    then have "\<not> (\<exists>v \<in> set voices. startsWith (v_lang v) wanted)"
      by (simp add: find_None_iff)
    with None nonempty w show ?thesis by (simp add: speakText_def Let_def)
  next
    case (Some v)
    from find_first [OF Some] obtain ys zs where
      "voices = ys @ v # zs" "startsWith (v_lang v) wanted"
      "\<forall>y \<in> set ys. \<not> startsWith (v_lang y) wanted" by blast
    moreover from this have "\<exists>v \<in> set voices. startsWith (v_lang v) wanted" by auto
    ultimately show ?thesis using Some nonempty w
      by (simp add: speakText_def Let_def) blast
  qed
qed

lemma find_es:
  "find (\<lambda>l. code l = ''es'') LANGUAGES = Some \<lparr>code = ''es'', name = ''Spanish'', voice = ''es-ES''\<rparr>"
  by (simp add: LANGUAGES_def)

theorem speakText_contract_witness:
  "speakText [] ''es''
     [\<lparr>v_name = ''Alice'', v_lang = ''en-US''\<rparr>, \<lparr>v_name = ''Monica'', v_lang = ''es-ES''\<rparr>]
     [\<lparr>u_text = ''fever'', u_voice = None, u_lang = ''en-US'', u_rate = 0.9, u_pitch = 1\<rparr>] =
     [\<lparr>u_text = ''fever'', u_voice = None, u_lang = ''en-US'', u_rate = 0.9, u_pitch = 1\<rparr>] \<and>
   (\<exists>u. speakText ''fiebre'' ''es''
          [\<lparr>v_name = ''Alice'', v_lang = ''en-US''\<rparr>, \<lparr>v_name = ''Monica'', v_lang = ''es-ES''\<rparr>]
          [\<lparr>u_text = ''fever'', u_voice = None, u_lang = ''en-US'', u_rate = 0.9, u_pitch = 1\<rparr>] = [u] \<and>
        u_text u = ''fiebre'' \<and> u_rate u = 0.9 \<and> u_pitch u = 1 \<and>
        u_voice u = Some \<lparr>v_name = ''Monica'', v_lang = ''es-ES''\<rparr>)"
proof -
  let ?vs = "[\<lparr>v_name = ''Alice'', v_lang = ''en-US''\<rparr>, \<lparr>v_name = ''Monica'', v_lang = ''es-ES''\<rparr>]"
  let ?q = "[\<lparr>u_text = ''fever'', u_voice = None, u_lang = ''en-US'', u_rate = 0.9, u_pitch = 1\<rparr>]"
  have w: "''es'' = (case find (\<lambda>l. code l = ''es'') LANGUAGES of
                       None \<Rightarrow> ''undefined''
                     | Some entry \<Rightarrow> takeWhile (\<lambda>c. c \<noteq> CHR ''-'') (voice entry))"
    by (simp add: find_es)
  note c = speakText_contract [OF w, of ?vs ?q "''fiebre''"]
  from c have noop: "speakText [] ''es'' ?vs ?q = ?q" by (rule conjunct1)
  have ex: "\<exists>v \<in> set ?vs. startsWith (v_lang v) ''es''" by (simp add: startsWith_def)
  from c ex obtain u before v after where
    u: "speakText ''fiebre'' ''es'' ?vs ?q = [u]" "u_text u = ''fiebre''" "u_rate u = 0.9" "u_pitch u = 1"
    and v: "?vs = before @ v # after" "u_voice u = Some v" "startsWith (v_lang v) ''es''"
    by (simp only: if_True, auto)
  from v(1) have "v \<in> set ?vs" by (metis in_set_conv_decomp)
  with v(3) have "v = \<lparr>v_name = ''Monica'', v_lang = ''es-ES''\<rparr>" by (auto simp: startsWith_def)
  with u v(2) noop show ?thesis by auto
qed

text \<open>
  Claim C9, as stated, has the load fail on every stored value that is not valid JSON.
  The empty string is not valid JSON, but \<^verbatim>\<open>if (saved)\<close> treats it like a missing entry:
  the load succeeds with an empty history.
\<close>

theorem load_sessions_empty_string:
  "[''healthcareTranslationSessions'' \<mapsto> []] ''healthcareTranslationSessions'' = Some [] \<and>
   (Map.empty :: json_parse) [] = None \<and>
   (case mount Map.empty True [''healthcareTranslationSessions'' \<mapsto> []] of
      Inl e \<Rightarrow> False
    | Inr b \<Rightarrow> sessions (current b) = [])"
  by (simp add: mount_def loadEffect_def recognitionEffect_def truthy_def initialState_def Let_def)

text \<open>
  Claim C9, amended. The load starts with an empty history when the history entry is
  missing or is the empty string; it reads the stored list when the entry is a string that
  is not empty and parses; and it fails with the uncaught \<^verbatim>\<open>SyntaxError\<close> when the entry
  is a string that is not empty and does not parse.
\<close>

theorem load_sessions:
  "(case storage ''healthcareTranslationSessions'' of
      None \<Rightarrow> (\<exists>b. mount JSON_parse supported storage = Inr b \<and> sessions (current b) = [])
    | Some saved \<Rightarrow>
        if saved = []
        then (\<exists>b. mount JSON_parse supported storage = Inr b \<and> sessions (current b) = [])
        else (case JSON_parse saved of
                None \<Rightarrow> mount JSON_parse supported storage = Inl SyntaxError
              | Some parsed \<Rightarrow>
                  (\<exists>b. mount JSON_parse supported storage = Inr b \<and> sessions (current b) = parsed)))"
  by (simp add: mount_def loadEffect_def recognitionEffect_def truthy_def initialState_def Let_def
      split: option.splits)

end
